theory Spec2Isabelle
  imports Main "HOL-Library.Word"
begin

section \<open>GridFS ReadStream (lib/mongodb/gridfs/readstream.js)\<close>

text \<open>
  The stream is a callback-driven state machine. Every asynchronous call of the source
  (\<^verbatim>\<open>gstore._nthChunk\<close>, \<^verbatim>\<open>gstore.close\<close>) is split into the part that runs
  when the call is made and the callback that runs when the collaborator answers. The
  calls the stream makes on its base class and on the backing handle (\<^verbatim>\<open>push\<close>,
  \<^verbatim>\<open>emit\<close>, \<^verbatim>\<open>pause\<close>, \<^verbatim>\<open>_nthChunk\<close>, \<^verbatim>\<open>close\<close>) are recorded, in order, in a
  trace.
\<close>

subsection \<open>Data\<close>

type_synonym byte = "8 word"

datatype error = Error string

datatype doc = Doc string

text \<open>
  JavaScript numbers that \<^verbatim>\<open>Math.ceil(length/chunkSize)\<close> can yield for integer operands:
  a division by zero gives an infinity or NaN, never an exception.
\<close>

datatype jsnum = Finite int | PosInfinity | NegInfinity | NaN

definition ceil_quot :: "int \<Rightarrow> int \<Rightarrow> jsnum" where
  "ceil_quot a b =
     (if b = 0 then (if 0 < a then PosInfinity else if a < 0 then NegInfinity else NaN)
      else Finite (- ((- a) div b)))"

fun js_gt :: "int \<Rightarrow> jsnum \<Rightarrow> bool" where
  "js_gt i (Finite k) = (k < i)"
| "js_gt i PosInfinity = False"
| "js_gt i NegInfinity = True"
| "js_gt i NaN = False"

fun js_ge :: "int \<Rightarrow> jsnum \<Rightarrow> bool" where
  "js_ge i (Finite k) = (k \<le> i)"
| "js_ge i PosInfinity = False"
| "js_ge i NegInfinity = True"
| "js_ge i NaN = False"

text \<open>
  Modelled from the spec: the chunk class (\<^verbatim>\<open>chunk.js\<close>) is not among the sources. The
  backing-handle contract (section 6) gives a loaded chunk a zero-based index and bytes,
  which \<^verbatim>\<open>readSlice\<close> hands out from the front and consumes. A chunk is therefore
  its index, its bytes, and the number of its bytes consumed so far.
\<close>

record chunk =
  chunkNumber :: int
  content :: "byte list"
  consumed :: nat

text \<open>Modelled from the spec: the bytes of a chunk that are not consumed yet.\<close>

definition unread :: "chunk \<Rightarrow> byte list" where
  "unread c = drop (consumed c) (content c)"

text \<open>
  Modelled from the spec: \<^verbatim>\<open>length()\<close> of a chunk is the "chunkLength" of section 4.2,
  the length of the whole chunk: in scenario B the chunk of 4 bytes that is positioned at
  its second byte gives a unit of 4 - 1 = 3 bytes, "bytes 5-7 of chunk 1, after dropping 1
  leading byte". For a chunk that is unread from its start it is the "remaining unread
  byte count" of section 6.
\<close>

definition chunk_length :: "chunk \<Rightarrow> int" where
  "chunk_length c = int (length (content c))"

text \<open>
  Modelled from the spec: \<^verbatim>\<open>readSlice(n)\<close> "extracts and returns the next n bytes from
  the loaded chunk, consuming them" (section 6); called with the length of the chunk it
  yields "the entirety of the loaded chunk's remaining bytes" (section 4.2), so it hands
  out what is left when fewer than n bytes are. The result is never null.
\<close>

definition readSlice :: "chunk \<Rightarrow> int \<Rightarrow> byte list option \<times> chunk" where
  "readSlice c n =
     (let bs = take (nat n) (unread c)
      in (Some bs, c\<lparr>consumed := consumed c + length bs\<rparr>))"

text \<open>The members of the backing handle (the GridStore) that the stream reads.\<close>

record gridstore =
  length_gs :: int
  chunkSize :: int
  position :: int
  mode :: string
  currentChunk :: chunk

record stream_state =
  autoclose :: bool
  gstore :: gridstore
  numberOfChunks :: jsnum
  currentChunkNumber :: int
  seekStartPosition :: int
  destroyed :: bool
  closed :: bool
  lastRead :: int

text \<open>What the stream does to the outside, in the order it does it.\<close>

datatype effect =
    Push "byte list"
  | PushNull
  | EmitError error
  | EmitClose "doc option"
  | Pause
  | NthChunk int
  | CloseStore

text \<open>
  The stream together with its trace and the number of \<^verbatim>\<open>_nthChunk\<close> and
  \<^verbatim>\<open>gstore.close\<close> calls that have not called back yet.
\<close>

record world =
  stream :: stream_state
  trace :: "effect list"
  fetches :: nat
  closes :: nat

definition emit :: "effect \<Rightarrow> world \<Rightarrow> world" where
  "emit x w = w\<lparr>trace := trace w @ [x]\<rparr>"

subsection \<open>Constructor\<close>

text \<open>
  \<^verbatim>\<open>autoclose != null ? autoclose : false\<close>: the argument is \<open>None\<close> when it is null or
  undefined. The flags start as null, which is false wherever they are tested.
\<close>

definition ReadStream :: "bool option \<Rightarrow> gridstore \<Rightarrow> stream_state" where
  "ReadStream ac g =
     \<lparr> autoclose = (case ac of Some b \<Rightarrow> b | None \<Rightarrow> False),
       gstore = g,
       numberOfChunks = ceil_quot (length_gs g) (chunkSize g),
       currentChunkNumber = chunkNumber (currentChunk g),
       seekStartPosition = position g - chunkNumber (currentChunk g) * chunkSize g,
       destroyed = False,
       closed = False,
       lastRead = - 1 \<rparr>"

definition init :: "bool option \<Rightarrow> gridstore \<Rightarrow> world" where
  "init ac g = \<lparr> stream = ReadStream ac g, trace = [], fetches = 0, closes = 0 \<rparr>"

subsection \<open>\<^verbatim>\<open>_advance\<close>\<close>

text \<open>
  How a call of \<^verbatim>\<open>_advance(callback)\<close> or \<^verbatim>\<open>_readChunk(callback)\<close> ends: it returned
  without calling the callback and without starting a fetch; it called the callback
  before returning; or it started a fetch, whose answer will call the callback.
\<close>

datatype 'a outcome = NotResolved | Resolved 'a | Fetching int

definition advance :: "world \<Rightarrow> world \<times> error option outcome" where
  "advance w =
     (let s = stream w in
      if destroyed s \<or> closed s then (w, NotResolved)
      else if lastRead s \<noteq> currentChunkNumber s then (w, Resolved None)
      else
        (let n = currentChunkNumber s + 1 in
         (emit (NthChunk n) (w\<lparr>stream := s\<lparr>currentChunkNumber := n\<rparr>, fetches := fetches w + 1\<rparr>),
          Fetching n)))"

text \<open>
  The callback given to \<^verbatim>\<open>_nthChunk\<close>; the result is the argument it passes to the
  callback of \<^verbatim>\<open>_advance\<close>. A fetch answers \<open>Inl err\<close> with a truthy error, or
  \<open>Inr chunk\<close>.
\<close>

definition advance_fetched :: "error + chunk \<Rightarrow> world \<Rightarrow> world \<times> error option" where
  "advance_fetched r w =
     (case r of
        Inl err \<Rightarrow> (w, Some err)
      | Inr c \<Rightarrow> (w\<lparr>stream := (stream w)\<lparr>gstore := (gstore (stream w))\<lparr>currentChunk := c\<rparr>\<rparr>\<rparr>, None))"

subsection \<open>\<^verbatim>\<open>_readChunk\<close>\<close>

text \<open>
  The callback given to \<^verbatim>\<open>_advance\<close>; the result is the pair \<^verbatim>\<open>(err, data)\<close> it passes
  to the callback of \<^verbatim>\<open>_readChunk\<close>.
\<close>

definition readChunk_advanced ::
  "error option \<Rightarrow> world \<Rightarrow> world \<times> (error option \<times> byte list option)" where
  "readChunk_advanced err w =
     (case err of
        Some e \<Rightarrow> (w, (Some e, None))
      | None \<Rightarrow>
          (let s = stream w; g = gstore s; c = currentChunk g in
           if 0 < seekStartPosition s \<and> seekStartPosition s < chunk_length c then
             (let (data, c') = readSlice c (chunk_length c - seekStartPosition s) in
              (w\<lparr>stream := s\<lparr>gstore := g\<lparr>currentChunk := c'\<rparr>,
                               seekStartPosition := 0,
                               lastRead := currentChunkNumber s\<rparr>\<rparr>,
               (None, data)))
           else
             (let (data, c') = readSlice c (chunk_length c) in
              (w\<lparr>stream := s\<lparr>gstore := g\<lparr>currentChunk := c'\<rparr>,
                               lastRead := currentChunkNumber s\<rparr>\<rparr>,
               (None, data)))))"

definition readChunk :: "world \<Rightarrow> world \<times> (error option \<times> byte list option) outcome" where
  "readChunk w =
     (if destroyed (stream w) \<or> closed (stream w) then (w, NotResolved)
      else
        (case advance w of
           (w', NotResolved) \<Rightarrow> (w', NotResolved)
         | (w', Resolved err) \<Rightarrow> (let (w'', r) = readChunk_advanced err w' in (w'', Resolved r))
         | (w', Fetching n) \<Rightarrow> (w', Fetching n)))"

subsection \<open>\<^verbatim>\<open>_shutdown\<close> and \<^verbatim>\<open>destroy\<close>\<close>

text \<open>\<^verbatim>\<open>gstore.mode[0] == "w"\<close>; an empty mode has no first character.\<close>

definition write_mode :: "gridstore \<Rightarrow> bool" where
  "write_mode g = (case mode g of [] \<Rightarrow> False | c # cs \<Rightarrow> c = CHR ''w'')"

text \<open>
  \<^verbatim>\<open>if (err)\<close>: the argument is \<open>None\<close> when it is absent or falsy. \<^verbatim>\<open>push(null)\<close> is
  the end-of-data signal.
\<close>

definition emit_error :: "error option \<Rightarrow> world \<Rightarrow> world" where
  "emit_error err w = (case err of Some e \<Rightarrow> emit (EmitError e) w | None \<Rightarrow> w)"

definition shutdown :: "error option \<Rightarrow> world \<Rightarrow> world" where
  "shutdown err w =
     (if closed (stream w) then w
      else
        (let w1 = w\<lparr>stream := (stream w)\<lparr>closed := True\<rparr>\<rparr>;
             w2 = emit_error err w1;
             w3 = emit PushNull w2
         in if autoclose (stream w3) then
              (if write_mode (gstore (stream w3))
               then (emit CloseStore w3)\<lparr>closes := closes w3 + 1\<rparr>
               else emit (EmitClose None) w3)
            else emit (EmitClose None) w3))"

text \<open>The callback given to \<^verbatim>\<open>gstore.close\<close>.\<close>

definition shutdown_closed :: "error option \<Rightarrow> doc option \<Rightarrow> world \<Rightarrow> world" where
  "shutdown_closed err d w = emit (EmitClose d) (emit_error err w)"

definition destroy :: "error option \<Rightarrow> world \<Rightarrow> world" where
  "destroy err w =
     (if destroyed (stream w) then w
      else shutdown err (emit Pause (w\<lparr>stream := (stream w)\<lparr>destroyed := True\<rparr>\<rparr>)))"

subsection \<open>\<^verbatim>\<open>_read\<close>\<close>

text \<open>The callback given to \<^verbatim>\<open>_readChunk\<close>.\<close>

definition read_chunked :: "error option \<times> byte list option \<Rightarrow> world \<Rightarrow> world" where
  "read_chunked r w =
     (case r of
        (Some e, data) \<Rightarrow> destroy (Some e) w
      | (None, data) \<Rightarrow>
          (let w1 = (case data of Some d \<Rightarrow> emit (Push d) w | None \<Rightarrow> w)
           in if js_ge (currentChunkNumber (stream w1)) (numberOfChunks (stream w1))
              then shutdown None w1 else w1))"

definition read :: "world \<Rightarrow> world" where
  "read w =
     (if destroyed (stream w) \<or> closed (stream w) then w
      else if js_gt (currentChunkNumber (stream w)) (numberOfChunks (stream w)) then w
      else
        (case readChunk w of
           (w', NotResolved) \<Rightarrow> w'
         | (w', Resolved r) \<Rightarrow> read_chunked r w'
         | (w', Fetching n) \<Rightarrow> w'))"

subsection \<open>Sessions\<close>

text \<open>
  What can happen to a stream: the consumer pulls (\<^verbatim>\<open>_read\<close> is called), an outstanding
  fetch answers, the outstanding \<^verbatim>\<open>gstore.close\<close> answers, or the user calls
  \<^verbatim>\<open>destroy\<close>. An answer with no call outstanding does nothing. An answered fetch
  resumes the callbacks that \<^verbatim>\<open>_read\<close> stacked on it: that of \<^verbatim>\<open>_advance\<close>, then
  that of \<^verbatim>\<open>_readChunk\<close>, then that of \<^verbatim>\<open>_read\<close>.
\<close>

datatype event =
    Pull
  | FetchDone "error + chunk"
  | CloseDone "error option" "doc option"
  | Cancel "error option"

definition fetch_done :: "error + chunk \<Rightarrow> world \<Rightarrow> world" where
  "fetch_done r w =
     (if fetches w = 0 then w
      else
        (let (w1, err) = advance_fetched r (w\<lparr>fetches := fetches w - 1\<rparr>);
             (w2, res) = readChunk_advanced err w1
         in read_chunked res w2))"

definition close_done :: "error option \<Rightarrow> doc option \<Rightarrow> world \<Rightarrow> world" where
  "close_done err d w =
     (if closes w = 0 then w else shutdown_closed err d (w\<lparr>closes := closes w - 1\<rparr>))"

fun step :: "event \<Rightarrow> world \<Rightarrow> world" where
  "step Pull w = read w"
| "step (FetchDone r) w = fetch_done r w"
| "step (CloseDone err d) w = close_done err d w"
| "step (Cancel err) w = destroy err w"

fun run :: "event list \<Rightarrow> world \<Rightarrow> world" where
  "run [] w = w"
| "run (e # es) w = run es (step e w)"

subsection \<open>Observations on traces and sessions\<close>

text \<open>The \<^verbatim>\<open>error\<close> signal that \<^verbatim>\<open>if (err) emit('error', err)\<close> adds to the trace.\<close>

definition error_signal :: "error option \<Rightarrow> effect list" where
  "error_signal err = (case err of Some e \<Rightarrow> [EmitError e] | None \<Rightarrow> [])"

fun is_close :: "effect \<Rightarrow> bool" where
  "is_close (EmitClose d) = True"
| "is_close x = False"

fun is_error :: "effect \<Rightarrow> bool" where
  "is_error (EmitError e) = True"
| "is_error x = False"

text \<open>The answer of the store's close operation that comes first in a list of events.\<close>

fun first_close :: "event list \<Rightarrow> (error option \<times> doc option) option" where
  "first_close [] = None"
| "first_close (CloseDone err d # es) = Some (err, d)"
| "first_close (e # es) = first_close es"

text \<open>
  The callback of \<^verbatim>\<open>_advance\<close> followed by the callback of \<^verbatim>\<open>_readChunk\<close>, once the
  chunk to read is loaded: what a pull on an unread chunk and a successful fetch have in
  common.
\<close>

definition produce :: "world \<Rightarrow> world" where
  "produce w = read_chunked (snd (readChunk_advanced None w)) (fst (readChunk_advanced None w))"

text \<open>
  One close signal per closed stream: emitted already, or due when the store's close
  operation answers.
\<close>

definition close_settled :: "world \<Rightarrow> bool" where
  "close_settled w \<longleftrightarrow>
     length (filter is_close (trace w)) + closes w = (if closed (stream w) then 1 else 0)"

subsection \<open>Concrete sessions\<close>

text \<open>
  An object of 10 bytes in chunks of 4: chunk 0 is loaded, chunks 1 and 2 are fetched,
  and the store answers a fetch of chunk 3 with an empty chunk.
\<close>

definition store_A :: gridstore where
  "store_A = \<lparr> length_gs = 10, chunkSize = 4, position = 0, mode = ''r'',
               currentChunk = \<lparr> chunkNumber = 0, content = [1, 2, 3, 4], consumed = 0 \<rparr> \<rparr>"

definition chunk_1 :: chunk where
  "chunk_1 = \<lparr> chunkNumber = 1, content = [5, 6, 7, 8], consumed = 0 \<rparr>"

definition chunk_2 :: chunk where
  "chunk_2 = \<lparr> chunkNumber = 2, content = [9, 10], consumed = 0 \<rparr>"

definition chunk_3 :: chunk where
  "chunk_3 = \<lparr> chunkNumber = 3, content = [], consumed = 0 \<rparr>"

text \<open>The same object opened for writing.\<close>

definition store_W :: gridstore where
  "store_W = store_A\<lparr>mode := ''w''\<rparr>"



section \<open>Properties\<close>

subsection \<open>The building blocks\<close>

lemmas eval_defs =
  init_def ReadStream_def
  read_def readChunk_def advance_def readChunk_advanced_def read_chunked_def
  fetch_done_def advance_fetched_def close_done_def shutdown_closed_def destroy_def shutdown_def
  emit_def emit_error_def error_signal_def write_mode_def
  ceil_quot_def chunk_length_def readSlice_def unread_def Let_def


lemma error_signal_filter [simp]:
  "filter is_close (error_signal err) = []"
  "filter is_error (error_signal err) = error_signal err"
  "CloseStore \<notin> set (error_signal err)"
  by (simp_all add: error_signal_def split: option.split)

lemma shutdown_closed_noop: "closed (stream w) \<Longrightarrow> shutdown err w = w"
  by (simp add: shutdown_def)

lemma shutdown_open:
  "\<not> closed (stream w) \<Longrightarrow>
   shutdown err w =
     w\<lparr>stream := (stream w)\<lparr>closed := True\<rparr>,
       trace := trace w @ error_signal err @
                [PushNull, if autoclose (stream w) \<and> write_mode (gstore (stream w))
                           then CloseStore else EmitClose None],
       closes := closes w + (if autoclose (stream w) \<and> write_mode (gstore (stream w)) then 1 else 0)\<rparr>"
  by (simp add: shutdown_def Let_def emit_def emit_error_def error_signal_def split: option.split)

lemma destroy_destroyed_noop: "destroyed (stream w) \<Longrightarrow> destroy err w = w"
  by (simp add: destroy_def)

lemma destroy_live:
  "\<not> destroyed (stream w) \<Longrightarrow>
   destroy err w =
     shutdown err (w\<lparr>stream := (stream w)\<lparr>destroyed := True\<rparr>, trace := trace w @ [Pause]\<rparr>)"
  by (simp add: destroy_def emit_def)

lemma shutdown_fields [simp]:
  "autoclose (stream (shutdown err w)) = autoclose (stream w)"
  "destroyed (stream (shutdown err w)) = destroyed (stream w)"
  "closed (stream (shutdown err w)) = True"
  "seekStartPosition (stream (shutdown err w)) = seekStartPosition (stream w)"
  "fetches (shutdown err w) = fetches w"
  by (cases "closed (stream w)"; simp add: shutdown_closed_noop shutdown_open)+

lemma shutdown_trace:
  "trace (shutdown err w) =
     (if closed (stream w) then trace w
      else trace w @ error_signal err @
           [PushNull, if autoclose (stream w) \<and> write_mode (gstore (stream w))
                      then CloseStore else EmitClose None])"
  "closes (shutdown err w) =
     (if closed (stream w) then closes w
      else closes w + (if autoclose (stream w) \<and> write_mode (gstore (stream w)) then 1 else 0))"
  by (simp_all add: shutdown_closed_noop shutdown_open)

lemma destroy_fields [simp]:
  "autoclose (stream (destroy err w)) = autoclose (stream w)"
  "destroyed (stream (destroy err w)) = True"
  "seekStartPosition (stream (destroy err w)) = seekStartPosition (stream w)"
  "fetches (destroy err w) = fetches w"
  by (cases "destroyed (stream w)"; simp add: destroy_destroyed_noop destroy_live)+

lemma destroy_closed [simp]:
  "closed (stream (destroy err w)) = (closed (stream w) \<or> \<not> destroyed (stream w))"
  by (cases "destroyed (stream w)"; simp add: destroy_destroyed_noop destroy_live)

lemma destroy_trace:
  "trace (destroy err w) =
     (if destroyed (stream w) then trace w
      else if closed (stream w) then trace w @ [Pause]
      else trace w @ [Pause] @ error_signal err @
           [PushNull, if autoclose (stream w) \<and> write_mode (gstore (stream w))
                      then CloseStore else EmitClose None])"
  "closes (destroy err w) =
     (if destroyed (stream w) \<or> closed (stream w) then closes w
      else closes w + (if autoclose (stream w) \<and> write_mode (gstore (stream w)) then 1 else 0))"
  by (cases "destroyed (stream w)"; simp add: destroy_destroyed_noop destroy_live shutdown_trace)+

text \<open>
  The callback of \<^verbatim>\<open>_advance\<close> touches only the loaded chunk, the seek offset and
  \<^verbatim>\<open>lastRead\<close>.
\<close>

lemma readChunk_advanced_frame [simp]:
  "trace (fst (readChunk_advanced err w)) = trace w"
  "fetches (fst (readChunk_advanced err w)) = fetches w"
  "closes (fst (readChunk_advanced err w)) = closes w"
  "autoclose (stream (fst (readChunk_advanced err w))) = autoclose (stream w)"
  "destroyed (stream (fst (readChunk_advanced err w))) = destroyed (stream w)"
  "closed (stream (fst (readChunk_advanced err w))) = closed (stream w)"
  "numberOfChunks (stream (fst (readChunk_advanced err w))) = numberOfChunks (stream w)"
  "currentChunkNumber (stream (fst (readChunk_advanced err w))) = currentChunkNumber (stream w)"
  "mode (gstore (stream (fst (readChunk_advanced err w)))) = mode (gstore (stream w))"
  "fst (snd (readChunk_advanced err w)) = err"
  by (simp_all add: readChunk_advanced_def readSlice_def Let_def split: option.split)

lemma readChunk_advanced_seek0 [simp]:
  "seekStartPosition (stream w) = 0 \<Longrightarrow>
   seekStartPosition (stream (fst (readChunk_advanced err w))) = 0"
  by (simp add: readChunk_advanced_def readSlice_def Let_def split: option.split)

lemma write_mode_cong: "mode g = mode g' \<Longrightarrow> write_mode g = write_mode g'"
  by (simp add: write_mode_def)

lemma readChunk_advanced_write_mode [simp]:
  "write_mode (gstore (stream (fst (readChunk_advanced err w)))) = write_mode (gstore (stream w))"
  by (rule write_mode_cong) simp

subsection \<open>The ways a pull and an answered fetch go\<close>

lemma read_noop:
  "destroyed (stream w) \<or> closed (stream w) \<or>
   js_gt (currentChunkNumber (stream w)) (numberOfChunks (stream w))
   \<Longrightarrow> read w = w"
  by (auto simp add: read_def)

lemma read_unread:
  "\<not> destroyed (stream w) \<Longrightarrow> \<not> closed (stream w) \<Longrightarrow>
   \<not> js_gt (currentChunkNumber (stream w)) (numberOfChunks (stream w)) \<Longrightarrow>
   lastRead (stream w) \<noteq> currentChunkNumber (stream w) \<Longrightarrow> read w = produce w"
  by (simp add: read_def readChunk_def advance_def produce_def Let_def split: prod.split)

lemma read_fetch:
  "\<not> destroyed (stream w) \<Longrightarrow> \<not> closed (stream w) \<Longrightarrow>
   \<not> js_gt (currentChunkNumber (stream w)) (numberOfChunks (stream w)) \<Longrightarrow>
   lastRead (stream w) = currentChunkNumber (stream w) \<Longrightarrow>
   read w = w\<lparr>stream := (stream w)\<lparr>currentChunkNumber := currentChunkNumber (stream w) + 1\<rparr>,
              trace := trace w @ [NthChunk (currentChunkNumber (stream w) + 1)],
              fetches := fetches w + 1\<rparr>"
  by (simp add: read_def readChunk_def advance_def emit_def Let_def)

lemma read_cases:
  "read w = w \<or> read w = produce w \<or>
   read w = w\<lparr>stream := (stream w)\<lparr>currentChunkNumber := currentChunkNumber (stream w) + 1\<rparr>,
              trace := trace w @ [NthChunk (currentChunkNumber (stream w) + 1)],
              fetches := fetches w + 1\<rparr>"
  using read_noop[of w] read_unread[of w] read_fetch[of w] by blast

lemma fetch_done_none: "fetches w = 0 \<Longrightarrow> fetch_done r w = w"
  by (simp add: fetch_done_def)

lemma fetch_done_failed:
  "0 < fetches w \<Longrightarrow> fetch_done (Inl e) w = destroy (Some e) (w\<lparr>fetches := fetches w - 1\<rparr>)"
  by (simp add: fetch_done_def advance_fetched_def readChunk_advanced_def read_chunked_def)

lemma fetch_done_fetched:
  "0 < fetches w \<Longrightarrow>
   fetch_done (Inr c) w =
     produce (w\<lparr>fetches := fetches w - 1,
                stream := (stream w)\<lparr>gstore := (gstore (stream w))\<lparr>currentChunk := c\<rparr>\<rparr>\<rparr>)"
  by (simp add: fetch_done_def advance_fetched_def produce_def split: prod.split)

lemma fetch_done_cases:
  "fetch_done r w = w \<or>
   (\<exists>e. fetch_done r w = destroy (Some e) (w\<lparr>fetches := fetches w - 1\<rparr>)) \<or>
   (\<exists>c. fetch_done r w =
          produce (w\<lparr>fetches := fetches w - 1,
                     stream := (stream w)\<lparr>gstore := (gstore (stream w))\<lparr>currentChunk := c\<rparr>\<rparr>\<rparr>))"
  using fetch_done_none[of w r] fetch_done_failed[of w] fetch_done_fetched[of w]
  by (cases r; cases "fetches w = 0") auto

lemma close_done_eq:
  "close_done err d w =
     (if closes w = 0 then w
      else w\<lparr>closes := closes w - 1, trace := trace w @ error_signal err @ [EmitClose d]\<rparr>)"
  by (simp add: close_done_def shutdown_closed_def emit_def emit_error_def error_signal_def
      split: option.split)

lemma produce_eq:
  "produce w =
     (let w1 = fst (readChunk_advanced None w);
          w2 = (case snd (snd (readChunk_advanced None w)) of
                  Some d \<Rightarrow> w1\<lparr>trace := trace w @ [Push d]\<rparr>
                | None \<Rightarrow> w1)
      in if js_ge (currentChunkNumber (stream w)) (numberOfChunks (stream w))
         then shutdown None w2 else w2)"
proof -
  obtain w1 e d where r: "readChunk_advanced None w = (w1, e, d)"
    by (metis prod_cases3)
  have e: "e = None"
    using readChunk_advanced_frame(10)[of None w] r by simp
  have f: "currentChunkNumber (stream w1) = currentChunkNumber (stream w)"
    "numberOfChunks (stream w1) = numberOfChunks (stream w)" "trace w1 = trace w"
    using readChunk_advanced_frame(8)[of None w] readChunk_advanced_frame(7)[of None w]
      readChunk_advanced_frame(1)[of None w] r by simp_all
  show ?thesis
    by (simp add: produce_def r e read_chunked_def Let_def emit_def f split: option.split)
qed

lemma produce_fields [simp]:
  "autoclose (stream (produce w)) = autoclose (stream w)"
  "destroyed (stream (produce w)) = destroyed (stream w)"
  "fetches (produce w) = fetches w"
  by (simp_all add: produce_eq Let_def split: option.split)

lemma produce_seek0 [simp]:
  "seekStartPosition (stream w) = 0 \<Longrightarrow> seekStartPosition (stream (produce w)) = 0"
  by (simp add: produce_eq Let_def split: option.split)

lemma produce_closed: "closed (stream w) \<Longrightarrow> closed (stream (produce w))"
  by (simp add: produce_eq Let_def split: option.split)

subsection \<open>Invariants of a step\<close>

lemma step_autoclose: "autoclose (stream (step ev w)) = autoclose (stream w)"
proof (cases ev)
  case Pull
  then show ?thesis using read_cases[of w] by (elim disjE) simp_all
next
  case (FetchDone r)
  then show ?thesis using fetch_done_cases[of r w] by (elim disjE exE) simp_all
next
  case (CloseDone err d)
  then show ?thesis by (simp add: close_done_eq)
next
  case (Cancel err)
  then show ?thesis by simp
qed


lemma step_destroyed:
  assumes "destroyed (stream w)"
  shows "destroyed (stream (step ev w))"
proof (cases ev)
  case Pull
  then show ?thesis using assms read_cases[of w] by (elim disjE) simp_all
next
  case (FetchDone r)
  then show ?thesis using assms fetch_done_cases[of r w] by (elim disjE exE) simp_all
next
  case (CloseDone err d)
  then show ?thesis using assms by (simp add: close_done_eq)
next
  case (Cancel err)
  then show ?thesis by simp
qed

lemma step_closed:
  assumes "closed (stream w)"
  shows "closed (stream (step ev w))"
proof (cases ev)
  case Pull
  then show ?thesis using assms read_cases[of w] by (elim disjE) (simp_all add: produce_closed)
next
  case (FetchDone r)
  then show ?thesis
    using assms fetch_done_cases[of r w] by (elim disjE exE) (simp_all add: produce_closed)
next
  case (CloseDone err d)
  then show ?thesis using assms by (simp add: close_done_eq)
next
  case (Cancel err)
  then show ?thesis using assms by simp
qed

text \<open>A destroyed stream is closed.\<close>

lemma step_destroyed_closed:
  assumes "destroyed (stream w) \<Longrightarrow> closed (stream w)" and "destroyed (stream (step ev w))"
  shows "closed (stream (step ev w))"
proof (cases ev)
  case Pull
  then show ?thesis
    using assms read_cases[of w] produce_closed[of w] by (elim disjE) auto
next
  case (FetchDone r)
  then show ?thesis
    using assms fetch_done_cases[of r w]
      produce_closed[of "w\<lparr>fetches := fetches w - 1,
         stream := (stream w)\<lparr>gstore := (gstore (stream w))\<lparr>currentChunk := c\<rparr>\<rparr>\<rparr>" for c]
    by (elim disjE exE) auto
next
  case (CloseDone err d)
  then show ?thesis using assms by (simp add: close_done_eq split: if_splits)
next
  case (Cancel err)
  then show ?thesis using assms by auto
qed

lemma run_destroyed_closed:
  "(destroyed (stream w) \<Longrightarrow> closed (stream w)) \<Longrightarrow> destroyed (stream (run evs w)) \<Longrightarrow>
   closed (stream (run evs w))"
proof (induction evs arbitrary: w)
  case Nil
  then show ?case by simp
next
  case (Cons ev evs)
  show ?case
    using Cons.IH[of "step ev w"] step_destroyed_closed[of w ev] Cons.prems by auto
qed

lemma shutdown_settled: "close_settled w \<Longrightarrow> close_settled (shutdown err w)"
  by (simp add: close_settled_def shutdown_trace)

lemma destroy_settled: "close_settled w \<Longrightarrow> close_settled (destroy err w)"
  by (simp add: close_settled_def destroy_trace)

lemma produce_settled: "close_settled w \<Longrightarrow> close_settled (produce w)"
  by (cases "closed (stream w)")
     (simp_all add: close_settled_def produce_eq Let_def shutdown_trace split: option.split)

lemma step_settled:
  assumes "close_settled w"
  shows "close_settled (step ev w)"
proof (cases ev)
  case Pull
  then show ?thesis
    using assms read_cases[of w] produce_settled[of w]
    by (elim disjE) (simp_all add: close_settled_def)
next
  case (FetchDone r)
  have a: "close_settled (w\<lparr>fetches := fetches w - 1\<rparr>)"
    using assms by (simp add: close_settled_def)
  have b: "close_settled (w\<lparr>fetches := fetches w - 1,
             stream := (stream w)\<lparr>gstore := (gstore (stream w))\<lparr>currentChunk := c\<rparr>\<rparr>\<rparr>)" for c
    using assms by (simp add: close_settled_def)
  from FetchDone show ?thesis
    using assms fetch_done_cases[of r w] destroy_settled[OF a] produce_settled[OF b]
    by (elim disjE exE) simp_all
next
  case (CloseDone err d)
  then show ?thesis
    using assms by (auto simp add: close_done_eq close_settled_def split: if_splits)
next
  case (Cancel err)
  then show ?thesis using assms by (simp add: destroy_settled)
qed

lemma run_settled: "close_settled w \<Longrightarrow> close_settled (run evs w)"
  by (induction evs arbitrary: w) (simp_all add: step_settled)

lemma init_settled: "close_settled (init ac g)"
  by (simp add: close_settled_def init_def ReadStream_def)

lemma run_destroyed: "destroyed (stream w) \<Longrightarrow> destroyed (stream (run evs w))"
  by (induction evs arbitrary: w) (simp_all add: step_destroyed)

lemma run_closed: "closed (stream w) \<Longrightarrow> closed (stream (run evs w))"
  by (induction evs arbitrary: w) (simp_all add: step_closed)

lemma run_autoclose: "autoclose (stream (run evs w)) = autoclose (stream w)"
  by (induction evs arbitrary: w) (simp_all add: step_autoclose)


text \<open>No resource close without autoclose.\<close>

lemma produce_no_closeStore:
  "\<not> autoclose (stream w) \<Longrightarrow> CloseStore \<notin> set (trace w) \<Longrightarrow>
   CloseStore \<notin> set (trace (produce w))"
  by (simp add: produce_eq Let_def shutdown_trace split: option.split)

lemma step_no_closeStore:
  assumes "\<not> autoclose (stream w)" and "CloseStore \<notin> set (trace w)"
  shows "CloseStore \<notin> set (trace (step ev w))"
proof (cases ev)
  case Pull
  then show ?thesis
    using assms read_cases[of w] produce_no_closeStore[of w] by (elim disjE) simp_all
next
  case (FetchDone r)
  then show ?thesis
    using assms fetch_done_cases[of r w]
      produce_no_closeStore[of "w\<lparr>fetches := fetches w - 1,
         stream := (stream w)\<lparr>gstore := (gstore (stream w))\<lparr>currentChunk := c\<rparr>\<rparr>\<rparr>" for c]
    by (elim disjE exE) (simp_all add: destroy_trace)
next
  case (CloseDone err d)
  then show ?thesis using assms by (simp add: close_done_eq)
next
  case (Cancel err)
  then show ?thesis using assms by (simp add: destroy_trace)
qed

lemma run_no_closeStore:
  "\<not> autoclose (stream w) \<Longrightarrow> CloseStore \<notin> set (trace w) \<Longrightarrow>
   CloseStore \<notin> set (trace (run evs w))"
  by (induction evs arbitrary: w) (simp_all add: step_no_closeStore step_autoclose)

text \<open>
  A destroyed and closed stream with no fetch outstanding only waits for the store to
  close.
\<close>

lemma step_inert:
  assumes "destroyed (stream w)" "closed (stream w)" "fetches w = 0"
  shows "step ev w = (case ev of CloseDone err d \<Rightarrow> close_done err d w | _ \<Rightarrow> w)"
  using assms by (cases ev) (simp_all add: read_noop fetch_done_none destroy_destroyed_noop)

lemma run_inert:
  assumes "destroyed (stream w)" "closed (stream w)" "fetches w = 0" "closes w = 0"
  shows "run evs w = w"
  using assms
  by (induction evs arbitrary: w) (simp_all add: step_inert close_done_eq split: event.split)

lemma run_closing:
  assumes "destroyed (stream w)" "closed (stream w)" "fetches w = 0" "closes w = 1"
  shows "run evs w =
          (case first_close evs of
             None \<Rightarrow> w
           | Some (err, d) \<Rightarrow> w\<lparr>closes := 0, trace := trace w @ error_signal err @ [EmitClose d]\<rparr>)"
  using assms
proof (induction evs arbitrary: w)
  case Nil
  then show ?case by simp
next
  case (Cons ev evs)
  show ?case
  proof (cases ev)
    case (CloseDone err d)
    have "run evs (step ev w) = step ev w"
      using Cons.prems CloseDone by (intro run_inert) (simp_all add: close_done_eq)
    then show ?thesis using Cons.prems CloseDone by (simp add: close_done_eq)
  next
    case Pull
    then show ?thesis using Cons by (simp add: read_noop)
  next
    case (FetchDone r)
    then show ?thesis using Cons by (simp add: fetch_done_none)
  next
    case (Cancel err)
    then show ?thesis using Cons by (simp add: destroy_destroyed_noop)
  qed
qed

text \<open>
  On a closed stream only the answer of the store's close operation adds a close signal,
  and only when that operation is outstanding.
\<close>

lemma produce_closed_frame:
  assumes "closed (stream w)"
  shows "filter is_close (trace (produce w)) = filter is_close (trace w) \<and>
         closes (produce w) = closes w"
  using assms by (simp add: produce_eq Let_def shutdown_trace split: option.split)

lemma destroy_closed_frame:
  assumes "closed (stream w)"
  shows "filter is_close (trace (destroy err w)) = filter is_close (trace w) \<and>
         closes (destroy err w) = closes w"
  using assms by (simp add: destroy_trace)

lemma step_closed_close_signals:
  assumes "closed (stream w)"
  shows "filter is_close (trace (step ev w)) =
           filter is_close (trace w) @
           (case ev of
              CloseDone cerr d \<Rightarrow> if closes w = 0 then [] else [EmitClose d]
            | _ \<Rightarrow> []) \<and>
         closes (step ev w) = (case ev of CloseDone cerr d \<Rightarrow> closes w - 1 | _ \<Rightarrow> closes w)"
proof (cases ev)
  case Pull
  then show ?thesis using assms by (simp add: read_noop)
next
  case (FetchDone r)
  have a: "closed (stream (w\<lparr>fetches := fetches w - 1\<rparr>))"
    using assms by simp
  have b: "closed (stream (w\<lparr>fetches := fetches w - 1,
             stream := (stream w)\<lparr>gstore := (gstore (stream w))\<lparr>currentChunk := c\<rparr>\<rparr>\<rparr>))" for c
    using assms by simp
  from FetchDone show ?thesis
    using fetch_done_cases[of r w] destroy_closed_frame[OF a] produce_closed_frame[OF b]
    by (elim disjE exE) simp_all
next
  case (CloseDone cerr d)
  then show ?thesis by (simp add: close_done_eq)
next
  case (Cancel err)
  then show ?thesis using destroy_closed_frame[OF assms] by simp
qed

subsection \<open>Advancing to the next chunk\<close>

text \<open>
  C1. A call of \<^verbatim>\<open>_advance\<close> on a stream that is neither destroyed nor closed: when
  \<^verbatim>\<open>lastRead\<close> differs from \<^verbatim>\<open>currentChunkNumber\<close> it calls back with no error, fetches
  nothing and changes nothing; otherwise it adds one to \<^verbatim>\<open>currentChunkNumber\<close> and
  issues one fetch, for the chunk of the new number. Whenever that fetch answers, a chunk
  replaces the loaded chunk and the callback gets no error, while an error is handed to
  the callback with the stream as it is: the chunk number is not taken back and the
  loaded chunk is not replaced.
\<close>

theorem advance_active:
  assumes "\<not> destroyed (stream w)" and "\<not> closed (stream w)"
  shows "(lastRead (stream w) \<noteq> currentChunkNumber (stream w) \<longrightarrow>
            advance w = (w, Resolved None)) \<and>
         (lastRead (stream w) = currentChunkNumber (stream w) \<longrightarrow>
            advance w =
              (w\<lparr>stream := (stream w)\<lparr>currentChunkNumber := currentChunkNumber (stream w) + 1\<rparr>,
                 trace := trace w @ [NthChunk (currentChunkNumber (stream w) + 1)],
                 fetches := fetches w + 1\<rparr>,
               Fetching (currentChunkNumber (stream w) + 1))) \<and>
         (\<forall>v c. advance_fetched (Inr c) v =
                  (v\<lparr>stream := (stream v)\<lparr>gstore := (gstore (stream v))\<lparr>currentChunk := c\<rparr>\<rparr>\<rparr>,
                   None)) \<and>
         (\<forall>v e. advance_fetched (Inl e) v = (v, Some e))"
  using assms by (simp add: advance_def Let_def emit_def advance_fetched_def)

theorem advance_active_witness:
  "\<not> destroyed (stream (init None store_A)) \<and> \<not> closed (stream (init None store_A)) \<and>
   lastRead (stream (init None store_A)) \<noteq> currentChunkNumber (stream (init None store_A)) \<and>
   advance (init None store_A) = (init None store_A, Resolved None) \<and>
   \<not> destroyed (stream (run [Pull] (init None store_A))) \<and>
   \<not> closed (stream (run [Pull] (init None store_A))) \<and>
   lastRead (stream (run [Pull] (init None store_A))) =
     currentChunkNumber (stream (run [Pull] (init None store_A))) \<and>
   snd (advance (run [Pull] (init None store_A))) = Fetching 1 \<and>
   trace (fst (advance (run [Pull] (init None store_A)))) = [Push [1, 2, 3, 4], NthChunk 1]"
proof -
  let ?a = "init None store_A" and ?b = "run [Pull] (init None store_A)"
  have a: "\<not> destroyed (stream ?a)" "\<not> closed (stream ?a)"
    "lastRead (stream ?a) \<noteq> currentChunkNumber (stream ?a)"
    by (simp_all add: init_def ReadStream_def store_A_def)
  have b: "\<not> destroyed (stream ?b)" "\<not> closed (stream ?b)"
    "lastRead (stream ?b) = currentChunkNumber (stream ?b)"
    "currentChunkNumber (stream ?b) = 0" "trace ?b = [Push [1, 2, 3, 4]]"
    by (simp_all add: eval_defs store_A_def)
  show ?thesis
    using a b advance_active[OF a(1) a(2)] advance_active[OF b(1) b(2)] by simp
qed

subsection \<open>Reading the loaded chunk\<close>



subsection \<open>End of data\<close>

text \<open>
  C3. The session of 10 bytes in chunks of 4 from position 0, autoclose off: the number
  of chunks is 3, and the units of 4, 4 and 2 bytes are pushed. After the third unit the
  stream is not closed and has signalled neither the end of the data nor the close: chunk
  number 2 is not \<^verbatim>\<open>>= 3\<close>. The next pull fetches chunk 3, which does not exist. When the
  store answers with an empty chunk a fourth, empty unit is pushed before the end of the
  data and the close; when it answers with an error, an error is signalled.
\<close>

theorem scenario_A_fourth_fetch:
  "numberOfChunks (ReadStream (Some False) store_A) = Finite 3 \<and>
   trace (run [Pull, Pull, FetchDone (Inr chunk_1), Pull, FetchDone (Inr chunk_2)]
            (init (Some False) store_A)) =
     [Push [1, 2, 3, 4], NthChunk 1, Push [5, 6, 7, 8], NthChunk 2, Push [9, 10]] \<and>
   \<not> closed (stream (run [Pull, Pull, FetchDone (Inr chunk_1), Pull, FetchDone (Inr chunk_2)]
            (init (Some False) store_A))) \<and>
   trace (run [Pull, Pull, FetchDone (Inr chunk_1), Pull, FetchDone (Inr chunk_2), Pull]
            (init (Some False) store_A)) =
     [Push [1, 2, 3, 4], NthChunk 1, Push [5, 6, 7, 8], NthChunk 2, Push [9, 10], NthChunk 3] \<and>
   trace (run [Pull, Pull, FetchDone (Inr chunk_1), Pull, FetchDone (Inr chunk_2), Pull,
               FetchDone (Inr chunk_3)]
            (init (Some False) store_A)) =
     [Push [1, 2, 3, 4], NthChunk 1, Push [5, 6, 7, 8], NthChunk 2, Push [9, 10], NthChunk 3,
      Push [], PushNull, EmitClose None] \<and>
   trace (run [Pull, Pull, FetchDone (Inr chunk_1), Pull, FetchDone (Inr chunk_2), Pull,
               FetchDone (Inl (Error ''no chunk 3''))]
            (init (Some False) store_A)) =
     [Push [1, 2, 3, 4], NthChunk 1, Push [5, 6, 7, 8], NthChunk 2, Push [9, 10], NthChunk 3,
      Pause, EmitError (Error ''no chunk 3''), PushNull, EmitClose None]"
  by (simp add: eval_defs store_A_def chunk_1_def chunk_2_def chunk_3_def)

subsection \<open>Shutdown and cancellation\<close>

text \<open>
  C4. \<^verbatim>\<open>_shutdown\<close> on a closed stream and \<^verbatim>\<open>destroy\<close> on a destroyed stream return
  the stream as it is, with nothing added to the trace. A second \<^verbatim>\<open>destroy\<close>, at any
  time after the first and with any argument, does nothing. In every session in which
  \<^verbatim>\<open>destroy\<close> has been called twice, the close signals at any later time are these.
  When no close operation of the store is outstanding after the two calls, there is one
  close signal in the trace, and it stays the only one. When the close operation of the
  store is outstanding (a stream with autoclose on a store opened for writing), there is
  none until that operation answers; its first answer emits the close signal, with the
  document of the answer, and it stays the only one. The two calls add the error of the
  first call to the error signals, and only when the stream was neither destroyed nor
  closed before.
\<close>

theorem shutdown_cancel_idempotent:
  "(closed (stream w) \<longrightarrow> shutdown err w = w) \<and>
   (destroyed (stream w) \<longrightarrow> destroy err w = w) \<and>
   destroy eb (run evs (destroy ea w)) = run evs (destroy ea w) \<and>
   (let v = run post (destroy eb (destroy ea (run pre (init ac g))))
    in length (filter is_close (trace v)) + closes v = 1) \<and>
   (let v = run pre (init ac g); u = destroy eb (destroy ea v)
    in filter is_close (trace (run post u)) =
         (if closes u = 0 then filter is_close (trace u)
          else case first_close post of None \<Rightarrow> [] | Some (cerr, d) \<Rightarrow> [EmitClose d]) \<and>
       length (filter is_close (trace (run post u))) =
         (if closes u = 0 then 1
          else case first_close post of None \<Rightarrow> 0 | Some (cerr, d) \<Rightarrow> 1) \<and>
       (\<not> closed (stream v) \<longrightarrow>
          closes u = (if autoclose (stream v) \<and> write_mode (gstore (stream v)) then 1 else 0))) \<and>
   (let v = run pre (init ac g)
    in filter is_error (trace (destroy eb (destroy ea v))) =
         filter is_error (trace v) @
         (if destroyed (stream v) \<or> closed (stream v) then [] else error_signal ea))"
proof -
  have twice: "destroy eb (destroy ea u) = destroy ea u" for u
    by (simp add: destroy_destroyed_noop)
  have later: "destroy eb (run evs (destroy ea w)) = run evs (destroy ea w)"
    by (intro destroy_destroyed_noop run_destroyed) simp
  let ?v = "run pre (init ac g)"
  let ?u = "destroy ea ?v"
  have inv: "destroyed (stream ?v) \<Longrightarrow> closed (stream ?v)"
    by (rule run_destroyed_closed) (simp_all add: init_def ReadStream_def)
  have cu: "closed (stream ?u)"
    using inv by auto
  then have c: "closed (stream (run post ?u))"
    by (rule run_closed)
  have "close_settled (run post ?u)"
    by (intro run_settled destroy_settled init_settled)
  with c have one: "length (filter is_close (trace (run post ?u))) + closes (run post ?u) = 1"
    by (simp add: close_settled_def)
  have sv: "close_settled ?v"
    by (intro run_settled init_settled)
  then have "close_settled ?u"
    by (rule destroy_settled)
  with cu have su: "length (filter is_close (trace ?u)) + closes ?u = 1"
    by (simp add: close_settled_def)
  then have le: "closes ?u \<le> 1"
    by simp
  have nil: "filter is_close (trace ?u) = []" if "closes ?u \<noteq> 0"
  proof -
    have "length (filter is_close (trace ?u)) = 0"
      using su that by arith
    then show ?thesis by simp
  qed
  have answer: "filter is_close (trace (step (CloseDone cerr d) x)) =
      filter is_close (trace x) @ (if closes x = 0 then [] else [EmitClose d]) \<and>
      closes (step (CloseDone cerr d) x) = closes x - 1" for cerr d x
    by (simp add: close_done_def shutdown_closed_def emit_def emit_error_def split: option.split)
  have signals: "filter is_close (trace (run es x)) =
      filter is_close (trace x) @
      (if closes x = 0 then []
       else case first_close es of None \<Rightarrow> [] | Some (cerr, d) \<Rightarrow> [EmitClose d])"
    if "closed (stream x)" and "closes x \<le> 1" for es x
    using that
  proof (induction es arbitrary: x)
    case Nil
    then show ?case by simp
  next
    case (Cons ev es)
    note st = step_closed_close_signals[OF Cons.prems(1), of ev]
    have c: "closed (stream (step ev x))"
      using Cons.prems(1) by (rule step_closed)
    show ?case
    proof (cases ev)
      case (CloseDone cerr d)
      have le: "closes (step ev x) \<le> 1"
        using answer[of cerr d x] Cons.prems(2) CloseDone by simp
      show ?thesis
        using Cons.IH[OF c le] answer[of cerr d x] Cons.prems(2) CloseDone
        by (cases "closes x = 0") (simp_all del: step.simps)
    next
      case Pull
      then have "closes (step ev x) \<le> 1" using st Cons.prems(2) by simp
      from Cons.IH[OF c this] show ?thesis using st Pull by simp
    next
      case (FetchDone r)
      then have "closes (step ev x) \<le> 1" using st Cons.prems(2) by simp
      from Cons.IH[OF c this] show ?thesis using st FetchDone by simp
    next
      case (Cancel e)
      then have "closes (step ev x) \<le> 1" using st Cons.prems(2) by simp
      from Cons.IH[OF c this] show ?thesis using st Cancel by simp
    qed
  qed
  have sig: "filter is_close (trace (run post ?u)) =
      (if closes ?u = 0 then filter is_close (trace ?u)
       else case first_close post of None \<Rightarrow> [] | Some (cerr, d) \<Rightarrow> [EmitClose d])"
    using signals[OF cu le, of post] nil by simp
  have cnt: "length (filter is_close (trace (run post ?u))) =
      (if closes ?u = 0 then 1
       else case first_close post of None \<Rightarrow> 0 | Some (cerr, d) \<Rightarrow> 1)"
    using su by (simp add: sig split: option.split)
  have fresh: "closes ?u =
      (if autoclose (stream ?v) \<and> write_mode (gstore (stream ?v)) then 1 else 0)"
    if "\<not> closed (stream ?v)"
  proof -
    have "\<not> destroyed (stream ?v)"
      using that inv by blast
    moreover have "closes ?v = 0"
      using sv that by (simp add: close_settled_def)
    ultimately show ?thesis
      using that by (simp add: destroy_trace)
  qed
  have errs: "filter is_error (trace ?u) =
      filter is_error (trace ?v) @
      (if destroyed (stream ?v) \<or> closed (stream ?v) then [] else error_signal ea)"
    by (simp add: destroy_trace)
  show ?thesis
    using later one sig cnt fresh errs
    by (simp add: twice shutdown_closed_noop destroy_destroyed_noop Let_def)
qed

theorem shutdown_cancel_idempotent_witness:
  "closed (stream (run [Cancel None] (init None store_A))) \<and>
   destroyed (stream (run [Cancel None] (init None store_A))) \<and>
   shutdown (Some (Error ''late'')) (run [Cancel None] (init None store_A)) =
     run [Cancel None] (init None store_A) \<and>
   destroy (Some (Error ''late'')) (run [Cancel None] (init None store_A)) =
     run [Cancel None] (init None store_A) \<and>
   \<not> closed (stream (run [Pull, Pull] (init (Some True) store_W))) \<and>
   closes (destroy None (destroy (Some (Error ''stop''))
     (run [Pull, Pull] (init (Some True) store_W)))) = 1 \<and>
   filter is_close (trace (run [Pull]
     (destroy None (destroy (Some (Error ''stop''))
        (run [Pull, Pull] (init (Some True) store_W)))))) = [] \<and>
   filter is_close (trace (run [Pull, CloseDone None (Some (Doc ''file'')), Cancel None,
                                CloseDone None None]
     (destroy None (destroy (Some (Error ''stop''))
        (run [Pull, Pull] (init (Some True) store_W)))))) = [EmitClose (Some (Doc ''file''))] \<and>
   filter is_error (trace
     (destroy None (destroy (Some (Error ''stop'')) (run [Pull, Pull] (init (Some True) store_W))))) =
     [EmitError (Error ''stop'')]"
proof -
  let ?w = "run [Cancel None] (init None store_A)"
  let ?v = "run [Pull, Pull] (init (Some True) store_W)"
  let ?u = "destroy None (destroy (Some (Error ''stop'')) ?v)"
  have a: "closed (stream ?w)" "destroyed (stream ?w)"
    by (simp_all add: eval_defs store_A_def)
  have b: "\<not> destroyed (stream ?v)" "\<not> closed (stream ?v)" "filter is_error (trace ?v) = []"
    "autoclose (stream ?v)" "write_mode (gstore (stream ?v))"
    by (simp_all add: eval_defs store_A_def store_W_def)
  note t0 = shutdown_cancel_idempotent[where w = ?w and err = "Some (Error ''late'')"
        and eb = None and evs = "[]" and ea = "Some (Error ''stop'')" and post = "[Pull]"
        and pre = "[Pull, Pull]" and ac = "Some True" and g = store_W, unfolded Let_def]
  note t1 = shutdown_cancel_idempotent[where w = ?w and err = "Some (Error ''late'')"
        and eb = None and evs = "[]" and ea = "Some (Error ''stop'')"
        and post = "[Pull, CloseDone None (Some (Doc ''file'')), Cancel None, CloseDone None None]"
        and pre = "[Pull, Pull]" and ac = "Some True" and g = store_W, unfolded Let_def]
  from t0 a have idem: "shutdown (Some (Error ''late'')) ?w = ?w"
    "destroy (Some (Error ''late'')) ?w = ?w"
    by blast+
  from t0 b have cl: "closes ?u = 1"
    by simp
  from t0 have "filter is_close (trace (run [Pull] ?u)) =
      (if closes ?u = 0 then filter is_close (trace ?u)
       else case first_close [Pull] of None \<Rightarrow> [] | Some (cerr, d) \<Rightarrow> [EmitClose d])"
    by blast
  then have none: "filter is_close (trace (run [Pull] ?u)) = []"
    by (simp add: cl del: run.simps)
  from t1 have "filter is_close (trace (run [Pull, CloseDone None (Some (Doc ''file'')),
        Cancel None, CloseDone None None] ?u)) =
      (if closes ?u = 0 then filter is_close (trace ?u)
       else case first_close [Pull, CloseDone None (Some (Doc ''file'')), Cancel None,
                 CloseDone None None] of
              None \<Rightarrow> [] | Some (cerr, d) \<Rightarrow> [EmitClose d])"
    by blast
  then have once: "filter is_close (trace (run [Pull, CloseDone None (Some (Doc ''file'')),
        Cancel None, CloseDone None None] ?u)) = [EmitClose (Some (Doc ''file''))]"
    by (simp add: cl del: run.simps)
  from t0 have "filter is_error (trace ?u) =
      filter is_error (trace ?v) @
      (if destroyed (stream ?v) \<or> closed (stream ?v) then []
       else error_signal (Some (Error ''stop'')))"
    by blast
  then have er: "filter is_error (trace ?u) = [EmitError (Error ''stop'')]"
    by (simp add: b error_signal_def del: run.simps)
  have "filter is_close (trace (run [Pull, CloseDone None (Some (Doc ''file'')),
        Cancel None, CloseDone None None] ?u)) = [EmitClose (Some (Doc ''file''))] \<and>
      filter is_close (trace (run [Pull] ?u)) = []"
    by (simp add: eval_defs store_A_def store_W_def)
  then show ?thesis
    using a b(2) idem cl none once er by blast
qed

subsection \<open>A failed fetch\<close>

text \<open>
  C5, as the claim states it, fails. With autoclose on and a store opened for writing, a
  session in which the fetch of chunk 1 fails and the store then fails to close signals two
  errors. A session cancelled without an error before the fetch of chunk 1 fails signals
  none.
\<close>

theorem fetch_failure_two_errors:
  "filter is_error
     (trace (run [Pull, Pull, FetchDone (Inl (Error ''fetch'')),
                  CloseDone (Some (Error ''close'')) None]
               (init (Some True) store_W))) =
   [EmitError (Error ''fetch''), EmitError (Error ''close'')] \<and>
   filter is_error
     (trace (run [Pull, Pull, Cancel None, FetchDone (Inl (Error ''fetch''))]
               (init None store_A))) = []"
  by (simp add: eval_defs store_A_def store_W_def)

text \<open>
  C5, amended. When the only outstanding fetch fails on a stream that is neither destroyed
  nor closed, the stream pauses, signals the error of the fetch, then the end of the data.
  With autoclose off, or a store not opened for writing, it then signals the close, and
  nothing more whatever happens next. With autoclose on and a store opened for writing it
  then calls the store's close operation; the first answer of that operation adds an error
  signal when it carries an error, and then the close signal; nothing else is ever added.
  So no unit is pushed after the failure, the end of the data is signalled once, the close
  at most once, and the error of the fetch comes before the end of the data.
\<close>

theorem fetch_failure_session:
  assumes "\<not> destroyed (stream w)" and "\<not> closed (stream w)"
    and "fetches w = 1" and "closes w = 0"
  shows "trace (run (FetchDone (Inl e) # evs) w) =
           trace w @ [Pause, EmitError e, PushNull] @
           (if autoclose (stream w) \<and> write_mode (gstore (stream w))
            then CloseStore #
                 (case first_close evs of
                    None \<Rightarrow> []
                  | Some (cerr, d) \<Rightarrow> error_signal cerr @ [EmitClose d])
            else [EmitClose None])"
proof -
  let ?u = "fetch_done (Inl e) w"
  have u: "?u = destroy (Some e) (w\<lparr>fetches := 0\<rparr>)"
    using assms by (simp add: fetch_done_failed)
  have flags: "destroyed (stream ?u)" "closed (stream ?u)" "fetches ?u = 0"
    using assms by (simp_all add: u)
  have tr: "trace ?u = trace w @ [Pause, EmitError e, PushNull,
              if autoclose (stream w) \<and> write_mode (gstore (stream w))
              then CloseStore else EmitClose None]"
    using assms by (simp add: u destroy_trace error_signal_def)
  have cl: "closes ?u = (if autoclose (stream w) \<and> write_mode (gstore (stream w)) then 1 else 0)"
    using assms by (simp add: u destroy_trace)
  show ?thesis
  proof (cases "autoclose (stream w) \<and> write_mode (gstore (stream w))")
    case True
    then have "closes ?u = 1" using cl by simp
    from run_closing[OF flags this, of evs] True tr show ?thesis
      by (simp split: option.split)
  next
    case False
    then have "closes ?u = 0" using cl by simp
    from run_inert[OF flags this, of evs] False tr show ?thesis
      by auto
  qed
qed

theorem fetch_failure_session_witness:
  "\<not> destroyed (stream (run [Pull, Pull] (init (Some True) store_W))) \<and>
   \<not> closed (stream (run [Pull, Pull] (init (Some True) store_W))) \<and>
   fetches (run [Pull, Pull] (init (Some True) store_W)) = 1 \<and>
   closes (run [Pull, Pull] (init (Some True) store_W)) = 0 \<and>
   trace (run (FetchDone (Inl (Error ''fetch'')) #
               [Pull, CloseDone None (Some (Doc ''file'')), Cancel None, Pull])
            (run [Pull, Pull] (init (Some True) store_W))) =
     [Push [1, 2, 3, 4], NthChunk 1, Pause, EmitError (Error ''fetch''), PushNull, CloseStore,
      EmitClose (Some (Doc ''file''))]"
proof -
  let ?w = "run [Pull, Pull] (init (Some True) store_W)"
  have a: "\<not> destroyed (stream ?w)" "\<not> closed (stream ?w)" "fetches ?w = 1" "closes ?w = 0"
    by (simp_all add: eval_defs store_A_def store_W_def)
  have b: "trace ?w = [Push [1, 2, 3, 4], NthChunk 1]"
    "autoclose (stream ?w)" "write_mode (gstore (stream ?w))"
    by (simp_all add: eval_defs store_A_def store_W_def)
  show ?thesis
    using a b fetch_failure_session[OF a, of "Error ''fetch''"
        "[Pull, CloseDone None (Some (Doc ''file'')), Cancel None, Pull]"]
    by (simp add: error_signal_def)
qed

subsection \<open>Calls on a closed or destroyed stream\<close>

text \<open>
  C6, as the claim states it, fails: on a destroyed stream \<^verbatim>\<open>_advance\<close> and
  \<^verbatim>\<open>_readChunk\<close> return without calling their callback.
\<close>

theorem advance_closed_unresolved:
  "destroyed (stream (run [Cancel None] (init None store_A))) \<and>
   closed (stream (run [Cancel None] (init None store_A))) \<and>
   snd (advance (run [Cancel None] (init None store_A))) = NotResolved \<and>
   snd (readChunk (run [Cancel None] (init None store_A))) = NotResolved"
  by (simp add: eval_defs store_A_def)

text \<open>
  C6, amended. On a stream that is destroyed or closed, \<^verbatim>\<open>_advance\<close> and
  \<^verbatim>\<open>_readChunk\<close> return at once: the callback is not called, no fetch is issued and the
  stream is unchanged.
\<close>

theorem closed_never_resolves:
  assumes "destroyed (stream w) \<or> closed (stream w)"
  shows "advance w = (w, NotResolved) \<and> readChunk w = (w, NotResolved)"
  using assms by (auto simp add: advance_def readChunk_def)

theorem closed_never_resolves_witness:
  "(destroyed (stream (run [Pull, Cancel None] (init None store_A))) \<or>
    closed (stream (run [Pull, Cancel None] (init None store_A)))) \<and>
   advance (run [Pull, Cancel None] (init None store_A)) =
     (run [Pull, Cancel None] (init None store_A), NotResolved) \<and>
   readChunk (run [Pull, Cancel None] (init None store_A)) =
     (run [Pull, Cancel None] (init None store_A), NotResolved)"
proof -
  let ?w = "run [Pull, Cancel None] (init None store_A)"
  have a: "destroyed (stream ?w) \<or> closed (stream ?w)"
    by (simp add: eval_defs store_A_def)
  show ?thesis
    using a closed_never_resolves[OF a] by blast
qed

subsection \<open>A fetch that answers after a cancellation\<close>

text \<open>
  C7. The stream is cancelled with an error while the fetch of chunk 1 is outstanding, and
  the fetch then answers with the chunk: the chunk replaces the loaded chunk, it is read,
  \<^verbatim>\<open>lastRead\<close> is set, and its bytes are pushed after the end of the data and the close
  have been signalled.
\<close>

theorem cancel_then_fetch_answer:
  "trace (run [Pull, Pull, Cancel (Some (Error ''stop''))] (init None store_A)) =
     [Push [1, 2, 3, 4], NthChunk 1, Pause, EmitError (Error ''stop''), PushNull, EmitClose None] \<and>
   destroyed (stream (run [Pull, Pull, Cancel (Some (Error ''stop''))] (init None store_A))) \<and>
   trace (run [Pull, Pull, Cancel (Some (Error ''stop'')), FetchDone (Inr chunk_1)]
            (init None store_A)) =
     [Push [1, 2, 3, 4], NthChunk 1, Pause, EmitError (Error ''stop''), PushNull, EmitClose None,
      Push [5, 6, 7, 8]] \<and>
   currentChunk (gstore (stream
       (run [Pull, Pull, Cancel (Some (Error ''stop'')), FetchDone (Inr chunk_1)]
          (init None store_A)))) = \<lparr>chunkNumber = 1, content = [5, 6, 7, 8], consumed = 4\<rparr> \<and>
   unread (currentChunk (gstore (stream
       (run [Pull, Pull, Cancel (Some (Error ''stop'')), FetchDone (Inr chunk_1)]
          (init None store_A))))) = [] \<and>
   lastRead (stream
       (run [Pull, Pull, Cancel (Some (Error ''stop'')), FetchDone (Inr chunk_1)]
          (init None store_A))) = 1"
  by (simp add: eval_defs store_A_def chunk_1_def)

subsection \<open>The offset at construction\<close>




subsection \<open>Closing the store\<close>

text \<open>
  C9. \<^verbatim>\<open>_shutdown\<close> on a stream that is not closed, with autoclose on and a store opened
  for writing, signals the error it was given, if any, then the end of the data, and calls
  the store's close operation, without a close signal yet. When that operation answers,
  the close signal is emitted, with the document of the answer, whether the answer
  carries an error or not; an error of the answer is signalled just before the close
  signal.
\<close>

theorem shutdown_autoclose_write:
  assumes "\<not> closed (stream w)" and "autoclose (stream w)"
    and "write_mode (gstore (stream w))"
  shows "shutdown err w =
           w\<lparr>stream := (stream w)\<lparr>closed := True\<rparr>,
             trace := trace w @ error_signal err @ [PushNull, CloseStore],
             closes := closes w + 1\<rparr> \<and>
         step (CloseDone None d) (shutdown err w) =
           (shutdown err w)\<lparr>closes := closes w,
                            trace := trace (shutdown err w) @ [EmitClose d]\<rparr> \<and>
         step (CloseDone (Some e) d) (shutdown err w) =
           (shutdown err w)\<lparr>closes := closes w,
                            trace := trace (shutdown err w) @ [EmitError e, EmitClose d]\<rparr>"
  using assms by (simp add: shutdown_open close_done_eq error_signal_def)

theorem shutdown_autoclose_write_witness:
  "\<not> closed (stream (init (Some True) store_W)) \<and> autoclose (stream (init (Some True) store_W)) \<and>
   write_mode (gstore (stream (init (Some True) store_W))) \<and>
   trace (shutdown None (init (Some True) store_W)) = [PushNull, CloseStore] \<and>
   trace (step (CloseDone (Some (Error ''close'')) (Some (Doc ''file'')))
            (shutdown None (init (Some True) store_W))) =
     [PushNull, CloseStore, EmitError (Error ''close''), EmitClose (Some (Doc ''file''))] \<and>
   trace (step (CloseDone None None) (shutdown None (init (Some True) store_W))) =
     [PushNull, CloseStore, EmitClose None]"
proof -
  let ?w = "init (Some True) store_W"
  have a: "\<not> closed (stream ?w)" "autoclose (stream ?w)" "write_mode (gstore (stream ?w))"
    by (simp_all add: init_def ReadStream_def store_W_def store_A_def write_mode_def)
  have b: "trace ?w = []"
    by (simp add: init_def)
  note t = shutdown_autoclose_write[OF a, of None]
  from t[of None "Error ''close''"] have s: "trace (shutdown None ?w) = [PushNull, CloseStore]"
    using b by (simp add: error_signal_def)
  from t[of "Some (Doc ''file'')" "Error ''close''"]
  have "step (CloseDone (Some (Error ''close'')) (Some (Doc ''file''))) (shutdown None ?w) =
      (shutdown None ?w)\<lparr>closes := closes ?w, trace := trace (shutdown None ?w) @
         [EmitError (Error ''close''), EmitClose (Some (Doc ''file''))]\<rparr>"
    by blast
  then have c: "trace (step (CloseDone (Some (Error ''close'')) (Some (Doc ''file'')))
      (shutdown None ?w)) =
      [PushNull, CloseStore, EmitError (Error ''close''), EmitClose (Some (Doc ''file''))]"
    by (simp add: s)
  from t[of None "Error ''close''"]
  have "step (CloseDone None None) (shutdown None ?w) =
      (shutdown None ?w)\<lparr>closes := closes ?w, trace := trace (shutdown None ?w) @ [EmitClose None]\<rparr>"
    by blast
  then have d: "trace (step (CloseDone None None) (shutdown None ?w)) =
      [PushNull, CloseStore, EmitClose None]"
    by (simp add: s)
  show ?thesis
    using a s c d by blast
qed

subsection \<open>The default of autoclose\<close>

text \<open>
  C10. A stream constructed without the autoclose argument (null or undefined) has
  autoclose off, and in no session does it call the store's close operation: not at the
  end of the data, not when destroyed.
\<close>

theorem autoclose_default_off:
  "autoclose (ReadStream None g) = False \<and>
   autoclose (stream (run evs (init None g))) = False \<and>
   CloseStore \<notin> set (trace (run evs (init None g)))"
proof -
  have a: "\<not> autoclose (stream (init None g))" "CloseStore \<notin> set (trace (init None g))"
    by (simp_all add: init_def ReadStream_def)
  show ?thesis
    using a run_no_closeStore[OF a, of evs] run_autoclose[of evs "init None g"]
    by (simp add: ReadStream_def)
qed

theorem autoclose_default_off_witness:
  "autoclose (ReadStream None store_W) = False \<and>
   CloseStore \<notin> set (trace (run [Pull, Pull, FetchDone (Inl (Error ''fetch'')), Cancel None]
                              (init None store_W)))"
  using autoclose_default_off[of store_W "[Pull, Pull, FetchDone (Inl (Error ''fetch'')), Cancel None]"]
  by blast

end
